theory Spec2Isabelle
  imports
    Main
    "HOL-Library.AList"
    "HOL-Library.Multiset"
    "HOL-Library.List_Lexorder"
    "HOL-Library.Product_Lexorder"
    "HOL-Library.Sublist"
begin

section \<open>Data model of \<open>generate.py\<close>\<close>

text \<open>
  A Python \<open>str\<close> is a sequence of code points and is compared code point by code point,
  a proper prefix being smaller. It is modelled as the list of its code points, ordered
  lexicographically. A Python \<open>int\<close> is unbounded: \<open>int\<close>.

  A Python \<open>dict\<close> keeps its keys in insertion order, and \<open>d[k] = v\<close> overwrites the
  value of a key already present where it stands and appends a new key at the end. It is
  modelled as an association list: \<open>map_of d k\<close> is the lookup, \<open>AList.update k v d\<close>
  the assignment, and the list itself is what \<open>d.items()\<close> iterates over.
\<close>

type_synonym str = "nat list"

type_synonym ('k, 'v) dict = "('k \<times> 'v) list"

definition lit :: "string \<Rightarrow> str" where
  "lit s = map of_char s"

text \<open>The exceptions the three functions of the pipeline can raise.\<close>

datatype error = ValueError | KeyError

text \<open>\<open>years[year][sex][name] = count\<close>\<close>

type_synonym year_counts = "(int, (str, (str, int) dict) dict) dict"

text \<open>\<open>ranks[sex][name][year] = rank\<close>\<close>

type_synonym rank_table = "(str, (str, (int, int) dict) dict) dict"

text \<open>\<open>(name, sex, current_rank, prev_rank, improvement)\<close>\<close>

type_synonym trend_entry = "str \<times> str \<times> int \<times> int \<times> int"

text \<open>Reading \<open>d[k1][k2][k3]\<close> where every level may lack its key.\<close>

definition entry :: "('a, ('b, ('c, 'v) dict) dict) dict \<Rightarrow> 'a \<Rightarrow> 'b \<Rightarrow> 'c \<Rightarrow> 'v option" where
  "entry d k1 k2 k3 =
     (case map_of d k1 of None \<Rightarrow> None
      | Some d2 \<Rightarrow> (case map_of d2 k2 of None \<Rightarrow> None | Some d3 \<Rightarrow> map_of d3 k3))"

text \<open>
  \<open>d[k] \<close> on a \<open>defaultdict(dict)\<close> (or a \<open>defaultdict\<close> of those): a missing key is
  created with an empty value. The assignment \<open>d[k2][k3] = v\<close> on a \<open>defaultdict(dict)\<close>
  therefore never fails.
\<close>

definition default_get :: "('k, ('j, 'v) dict) dict \<Rightarrow> 'k \<Rightarrow> ('j, 'v) dict" where
  "default_get d k = (case map_of d k of None \<Rightarrow> [] | Some inner \<Rightarrow> inner)"

definition store2 :: "'b \<Rightarrow> 'c \<Rightarrow> 'v \<Rightarrow> ('b, ('c, 'v) dict) dict \<Rightarrow> ('b, ('c, 'v) dict) dict" where
  "store2 k2 k3 v d = AList.update k2 (AList.update k3 v (default_get d k2)) d"

section \<open>Record Parser: \<open>parse_names\<close>\<close>

text \<open>
  The archive as \<open>zipfile.ZipFile\<close> presents it: \<open>namelist()\<close> and, for a member name, the
  rows that \<open>csv.reader\<close> yields from the opened member. The builtin \<open>int\<close> applied to a
  \<open>str\<close> is a parameter \<open>py_int\<close> of the parser: \<open>None\<close> where it raises \<open>ValueError\<close>.
\<close>

record zip_file =
  namelist :: "str list"
  rows_of :: "str \<Rightarrow> str list list"

text \<open>\<open>years[year][sex][name] = count\<close> on the \<open>defaultdict\<close> of \<open>defaultdict(dict)\<close>.\<close>

definition store_count :: "int \<Rightarrow> str \<Rightarrow> str \<Rightarrow> int \<Rightarrow> year_counts \<Rightarrow> year_counts" where
  "store_count year sex name cnt years =
     AList.update year (store2 sex name cnt (default_get years year)) years"

text \<open>
  The loop over the rows of one member. \<open>name, sex, count = row\<close> raises \<open>ValueError\<close>
  unless the row has exactly three fields.
\<close>

fun parse_rows :: "(str \<Rightarrow> int option) \<Rightarrow> int \<Rightarrow> str list list \<Rightarrow> year_counts \<Rightarrow> error + year_counts" where
  "parse_rows py_int year [] years = Inr years"
| "parse_rows py_int year (row # rows) years =
     (case row of
        [name, sex, cnt] \<Rightarrow>
          (case py_int cnt of
             None \<Rightarrow> Inl ValueError
           | Some c \<Rightarrow> parse_rows py_int year rows (store_count year sex name c years))
      | _ \<Rightarrow> Inl ValueError)"

definition is_yob :: "str \<Rightarrow> bool" where
  "is_yob filename \<longleftrightarrow> prefix (lit ''yob'') filename \<and> suffix (lit ''.txt'') filename"

text \<open>\<open>filename[3:7]\<close>\<close>

definition year_field :: "str \<Rightarrow> str" where
  "year_field filename = take 4 (drop 3 filename)"

fun parse_files :: "(str \<Rightarrow> int option) \<Rightarrow> (str \<Rightarrow> str list list) \<Rightarrow> str list \<Rightarrow> year_counts \<Rightarrow> error + year_counts" where
  "parse_files py_int rows [] years = Inr years"
| "parse_files py_int rows (filename # rest) years =
     (if \<not> is_yob filename then parse_files py_int rows rest years
      else (case py_int (year_field filename) of
              None \<Rightarrow> Inl ValueError
            | Some year \<Rightarrow>
                (case parse_rows py_int year (rows filename) years of
                   Inl e \<Rightarrow> Inl e
                 | Inr years' \<Rightarrow> parse_files py_int rows rest years')))"

definition parse_names :: "(str \<Rightarrow> int option) \<Rightarrow> zip_file \<Rightarrow> error + year_counts" where
  "parse_names py_int zf = parse_files py_int (rows_of zf) (namelist zf) []"

section \<open>Rank Calculator: \<open>compute_ranks\<close>\<close>

text \<open>\<open>sorted(names_counts.items(), key=lambda kv: (-kv[1], kv[0]))\<close>; Python's sort is stable.\<close>

definition count_key :: "str \<times> int \<Rightarrow> int \<times> str" where
  "count_key kv = (- snd kv, fst kv)"

definition sorted_names :: "(str, int) dict \<Rightarrow> (str \<times> int) list" where
  "sorted_names names_counts = sort_key count_key names_counts"

text \<open>
  \<open>ranks[sex][name][year] = rank\<close>: \<open>ranks\<close> is a plain \<open>dict\<close>, so \<open>ranks[sex]\<close> raises
  \<open>KeyError\<close> for a missing key; \<open>ranks[sex]\<close> is a \<open>defaultdict(dict)\<close>.
\<close>

definition store_rank :: "str \<Rightarrow> str \<Rightarrow> int \<Rightarrow> int \<Rightarrow> rank_table \<Rightarrow> error + rank_table" where
  "store_rank sex name year rank ranks =
     (case map_of ranks sex of
        None \<Rightarrow> Inl KeyError
      | Some names \<Rightarrow> Inr (AList.update sex (store2 name year rank names) ranks))"

text \<open>\<open>for rank, (name, _) in enumerate(sorted_names, start=1)\<close>, from the rank reached.\<close>

fun assign_ranks :: "str \<Rightarrow> int \<Rightarrow> int \<Rightarrow> (str \<times> int) list \<Rightarrow> rank_table \<Rightarrow> error + rank_table" where
  "assign_ranks sex year rank [] ranks = Inr ranks"
| "assign_ranks sex year rank (kv # rest) ranks =
     (case store_rank sex (fst kv) year rank ranks of
        Inl e \<Rightarrow> Inl e
      | Inr ranks' \<Rightarrow> assign_ranks sex year (rank + 1) rest ranks')"

text \<open>\<open>for sex, names_counts in sex_data.items()\<close>\<close>

fun rank_sexes :: "int \<Rightarrow> (str, (str, int) dict) dict \<Rightarrow> rank_table \<Rightarrow> error + rank_table" where
  "rank_sexes year [] ranks = Inr ranks"
| "rank_sexes year (sn # rest) ranks =
     (case assign_ranks (fst sn) year 1 (sorted_names (snd sn)) ranks of
        Inl e \<Rightarrow> Inl e
      | Inr ranks' \<Rightarrow> rank_sexes year rest ranks')"

text \<open>\<open>for year, sex_data in years_data.items()\<close>\<close>

fun rank_years :: "year_counts \<Rightarrow> rank_table \<Rightarrow> error + rank_table" where
  "rank_years [] ranks = Inr ranks"
| "rank_years (ys # rest) ranks =
     (case rank_sexes (fst ys) (snd ys) ranks of
        Inl e \<Rightarrow> Inl e
      | Inr ranks' \<Rightarrow> rank_years rest ranks')"

definition compute_ranks :: "year_counts \<Rightarrow> error + rank_table" where
  "compute_ranks years_data = rank_years years_data [(lit ''M'', []), (lit ''F'', [])]"

section \<open>Trend Selector: \<open>calculate_trending\<close>\<close>

text \<open>The set \<open>all_years\<close> after the first loop: every year key of every name of every sex.\<close>

definition all_years :: "rank_table \<Rightarrow> int set" where
  "all_years ranks =
     set (concat (map (\<lambda>sn. concat (map (\<lambda>ny. map fst (snd ny)) (snd sn))) ranks))"

text \<open>The body of the loop over \<open>ranks[sex].items()\<close>, appending to \<open>trending_list\<close>.\<close>

fun sex_candidates :: "int \<Rightarrow> int \<Rightarrow> str \<Rightarrow> (str, (int, int) dict) dict \<Rightarrow> trend_entry list" where
  "sex_candidates last_year prev_year sex [] = []"
| "sex_candidates last_year prev_year sex (ny # rest) =
     (case (map_of (snd ny) last_year, map_of (snd ny) prev_year) of
        (Some current_rank, Some prev_rank) \<Rightarrow>
          (fst ny, sex, current_rank, prev_rank, prev_rank - current_rank)
            # sex_candidates last_year prev_year sex rest
      | _ \<Rightarrow> sex_candidates last_year prev_year sex rest)"

text \<open>\<open>for sex in ["M", "F"]\<close>: \<open>ranks[sex]\<close> raises \<open>KeyError\<close> on a plain \<open>dict\<close> without the key.\<close>

fun candidates :: "int \<Rightarrow> int \<Rightarrow> rank_table \<Rightarrow> str list \<Rightarrow> error + trend_entry list" where
  "candidates last_year prev_year ranks [] = Inr []"
| "candidates last_year prev_year ranks (sex # sexes) =
     (case map_of ranks sex of
        None \<Rightarrow> Inl KeyError
      | Some names \<Rightarrow>
          (case candidates last_year prev_year ranks sexes of
             Inl e \<Rightarrow> Inl e
           | Inr later \<Rightarrow> Inr (sex_candidates last_year prev_year sex names @ later)))"

text \<open>\<open>key=lambda tup: (-(tup[4]), tup[2], tup[0])\<close>\<close>

definition trend_key :: "trend_entry \<Rightarrow> int \<times> int \<times> str" where
  "trend_key tup = (case tup of (name, sex, current_rank, prev_rank, improvement) \<Rightarrow>
     (- improvement, current_rank, name))"

text \<open>
  \<open>xs[:n]\<close>: the first \<open>n\<close> elements for \<open>n \<ge> 0\<close>, and all but the last \<open>-n\<close> for a
  negative \<open>n\<close>.
\<close>

definition slice_to :: "'a list \<Rightarrow> int \<Rightarrow> 'a list" where
  "slice_to xs n = (if 0 \<le> n then take (nat n) xs else take (length xs - nat (- n)) xs)"

text \<open>\<open>last_year = max(all_years)\<close> and \<open>prev_year = max(y for y in all_years if y < last_year)\<close>\<close>

definition last_year :: "rank_table \<Rightarrow> int" where
  "last_year ranks = Max (all_years ranks)"

definition prev_year :: "rank_table \<Rightarrow> int" where
  "prev_year ranks = Max {y \<in> all_years ranks. y < last_year ranks}"

text \<open>\<open>trending_list\<close> as the second loop leaves it, before it is sorted.\<close>

definition trending_list :: "rank_table \<Rightarrow> error + trend_entry list" where
  "trending_list ranks =
     candidates (last_year ranks) (prev_year ranks) ranks [lit ''M'', lit ''F'']"

definition calculate_trending :: "rank_table \<Rightarrow> int \<Rightarrow> error + trend_entry list" where
  "calculate_trending ranks top_n =
     (if card (all_years ranks) < 2 then Inr []
      else (case trending_list ranks of
              Inl e \<Rightarrow> Inl e
            | Inr cands \<Rightarrow> Inr (slice_to (sort_key trend_key cands) top_n)))"

section \<open>Notions of the specification\<close>

text \<open>
  The order the specification asks of a TrendList: improvement descending, then current
  rank ascending, then name ascending.
\<close>

definition trend_order :: "trend_entry \<Rightarrow> trend_entry \<Rightarrow> bool" where
  "trend_order a b =
     (case a of (name_a, sex_a, cur_a, prev_a, imp_a) \<Rightarrow>
      case b of (name_b, sex_b, cur_b, prev_b, imp_b) \<Rightarrow>
        imp_a > imp_b \<or>
        (imp_a = imp_b \<and> (cur_a < cur_b \<or> (cur_a = cur_b \<and> name_a \<le> name_b))))"

text \<open>A RankTable holds an entry for each of the two sexes, as \<open>compute_ranks\<close> builds it.\<close>

definition both_sexes :: "rank_table \<Rightarrow> bool" where
  "both_sexes ranks \<longleftrightarrow> map_of ranks (lit ''M'') \<noteq> None \<and> map_of ranks (lit ''F'') \<noteq> None"

text \<open>The keys of a \<open>dict\<close> are distinct.\<close>

definition distinct_keys :: "('k, 'v) dict \<Rightarrow> bool" where
  "distinct_keys d \<longleftrightarrow> distinct (map fst d)"

text \<open>Within each sex of a RankTable the names are distinct.\<close>

definition distinct_names :: "rank_table \<Rightarrow> bool" where
  "distinct_names ranks \<longleftrightarrow> list_all (\<lambda>sn. distinct_keys (snd sn)) ranks"

text \<open>
  A YearCountTable is a \<open>dict\<close> of \<open>dict\<close>s of \<open>dict\<close>s: the years are distinct, the sexes
  of a year are distinct, and the names of a (year, sex) group are distinct.
\<close>

definition year_counts_ok :: "year_counts \<Rightarrow> bool" where
  "year_counts_ok years \<longleftrightarrow>
     distinct_keys years \<and>
     list_all (\<lambda>ys. distinct_keys (snd ys) \<and> list_all (\<lambda>sn. distinct_keys (snd sn)) (snd ys)) years"

text \<open>The (year, sex) groups of a YearCountTable, and the sex codes the pipeline knows.\<close>

definition group_of :: "year_counts \<Rightarrow> int \<Rightarrow> str \<Rightarrow> (str, int) dict option" where
  "group_of years year sex =
     (case map_of years year of None \<Rightarrow> None | Some sex_data \<Rightarrow> map_of sex_data sex)"

definition known_sexes :: "year_counts \<Rightarrow> bool" where
  "known_sexes years \<longleftrightarrow>
     list_all (\<lambda>ys. list_all (\<lambda>sn. fst sn = lit ''M'' \<or> fst sn = lit ''F'') (snd ys)) years"

text \<open>
  The records of an archive in the order the parser reads them: member by member as
  \<open>namelist()\<close> gives them, row by row, each with the year of its member.
\<close>

definition parsed_row :: "(str \<Rightarrow> int option) \<Rightarrow> int \<Rightarrow> str list \<Rightarrow> (int \<times> str \<times> str \<times> int) list" where
  "parsed_row py_int year row =
     (case row of
        [name, sex, cnt] \<Rightarrow> (case py_int cnt of None \<Rightarrow> [] | Some c \<Rightarrow> [(year, name, sex, c)])
      | _ \<Rightarrow> [])"

definition member_records :: "(str \<Rightarrow> int option) \<Rightarrow> (str \<Rightarrow> str list list) \<Rightarrow> str \<Rightarrow> (int \<times> str \<times> str \<times> int) list" where
  "member_records py_int rows filename =
     (case py_int (year_field filename) of
        None \<Rightarrow> []
      | Some year \<Rightarrow> concat (map (parsed_row py_int year) (rows filename)))"

definition records :: "(str \<Rightarrow> int option) \<Rightarrow> zip_file \<Rightarrow> (int \<times> str \<times> str \<times> int) list" where
  "records py_int zf =
     concat (map (member_records py_int (rows_of zf)) (filter is_yob (namelist zf)))"

text \<open>The key under which a record is stored: \<open>years[year][sex][name]\<close>.\<close>

definition record_key :: "int \<times> str \<times> str \<times> int \<Rightarrow> int \<times> str \<times> str" where
  "record_key r = (case r of (year, name, sex, c) \<Rightarrow> (year, sex, name))"

text \<open>
  An archive the parser accepts: the year of every member it reads parses, and every row has
  three fields, the third of which parses.
\<close>

definition well_formed_member :: "(str \<Rightarrow> int option) \<Rightarrow> (str \<Rightarrow> str list list) \<Rightarrow> str \<Rightarrow> bool" where
  "well_formed_member py_int rows filename \<longleftrightarrow>
     py_int (year_field filename) \<noteq> None \<and>
     list_all (\<lambda>row. length row = 3 \<and> py_int (row ! 2) \<noteq> None) (rows filename)"

definition well_formed :: "(str \<Rightarrow> int option) \<Rightarrow> zip_file \<Rightarrow> bool" where
  "well_formed py_int zf \<longleftrightarrow>
     list_all (well_formed_member py_int (rows_of zf)) (filter is_yob (namelist zf))"

text \<open>What the parser does with one record.\<close>

definition store_record :: "int \<times> str \<times> str \<times> int \<Rightarrow> year_counts \<Rightarrow> year_counts" where
  "store_record r years = (case r of (year, name, sex, c) \<Rightarrow> store_count year sex name c years)"

section \<open>Concrete tables\<close>

text \<open>The RankTable of the specification's example scenario.\<close>

definition example_ranks :: rank_table where
  "example_ranks =
     [(lit ''M'', [(lit ''Alex'', [(2021, 1), (2022, 2)]), (lit ''Sam'', [(2021, 2), (2022, 1)])]),
      (lit ''F'', [])]"

text \<open>A RankTable with one year only.\<close>

definition single_year_ranks :: rank_table where
  "single_year_ranks =
     [(lit ''M'', [(lit ''Alex'', [(2021, 1)])]), (lit ''F'', [(lit ''Sam'', [(2021, 1)])])]"

text \<open>A RankTable where one name has the same ranks under both sexes.\<close>

definition tie_ranks :: rank_table where
  "tie_ranks =
     [(lit ''M'', [(lit ''Kim'', [(2021, 1), (2022, 1)])]),
      (lit ''F'', [(lit ''Kim'', [(2021, 1), (2022, 1)])])]"

text \<open>A RankTable where a name appears in the last year only.\<close>

definition partial_ranks :: rank_table where
  "partial_ranks =
     [(lit ''M'', [(lit ''Alex'', [(2021, 1), (2022, 2)]),
                   (lit ''Sam'', [(2021, 2), (2022, 1)]),
                   (lit ''Zed'', [(2022, 3)])]),
      (lit ''F'', [])]"

text \<open>The YearCountTable of the specification's example scenario.\<close>

definition example_years :: year_counts where
  "example_years =
     [(2021, [(lit ''M'', [(lit ''Alex'', 100), (lit ''Sam'', 100)])]),
      (2022, [(lit ''M'', [(lit ''Alex'', 50), (lit ''Sam'', 200)])])]"

text \<open>A YearCountTable with a sex code other than \<open>M\<close> and \<open>F\<close>.\<close>

definition other_sex_years :: year_counts where
  "other_sex_years = [(2020, [(lit ''X'', [(lit ''Alex'', 5)])])]"

text \<open>
  A stand-in for the builtin \<open>int\<close> on the strings of the archives below: it agrees with
  \<open>int\<close> on non-empty strings of ASCII digits and rejects every other string (the builtin
  also accepts signs, surrounding whitespace, underscores and other decimal digits, none of
  which occurs below).
\<close>

definition int_of_digits :: "str \<Rightarrow> int option" where
  "int_of_digits s =
     (if s \<noteq> [] \<and> list_all (\<lambda>c. 48 \<le> c \<and> c \<le> 57) s
      then Some (foldl (\<lambda>a c. 10 * a + int (c - 48)) 0 s) else None)"

text \<open>An archive whose member repeats the key (2020, M, Alex), and a member that is skipped.\<close>

definition duplicate_zip :: zip_file where
  "duplicate_zip =
     \<lparr> namelist = [lit ''yob2020.txt'', lit ''NationalReadMe.pdf''],
       rows_of = (\<lambda>filename.
         if filename = lit ''yob2020.txt''
         then [[lit ''Alex'', lit ''M'', lit ''5''],
               [lit ''Bo'', lit ''M'', lit ''5''],
               [lit ''Alex'', lit ''M'', lit ''7'']]
         else []) \<rparr>"

text \<open>An archive with a record of sex code \<open>X\<close>.\<close>

definition other_sex_zip :: zip_file where
  "other_sex_zip =
     \<lparr> namelist = [lit ''yob2020.txt''],
       rows_of = (\<lambda>filename. [[lit ''Alex'', lit ''X'', lit ''5'']]) \<rparr>"

section \<open>Nested dictionaries\<close>

lemma map_of_store2:
  "map_of (store2 k2 k3 v d) k =
     (if k = k2 then Some (AList.update k3 v (default_get d k2)) else map_of d k)"
  by (simp add: store2_def update_conv')

section \<open>Record Parser: proofs\<close>

lemma entry_store_count:
  "entry (store_count year sex name c years) y s n =
     (if y = year \<and> s = sex \<and> n = name then Some c else entry years y s n)"
proof (cases "y = year")
  case False
  then show ?thesis by (simp add: entry_def store_count_def update_conv')
next
  case True
  show ?thesis
  proof (cases "s = sex")
    case False
    with True show ?thesis
      by (simp add: entry_def store_count_def update_conv' map_of_store2 default_get_def
          split: option.splits)
  next
    case s: True
    with True show ?thesis
      by (simp add: entry_def store_count_def update_conv' map_of_store2 default_get_def
          split: option.splits)
  qed
qed

lemma entry_store_record:
  "entry (store_record r years) y s n =
     (if record_key r = (y, s, n) then Some (snd (snd (snd r))) else entry years y s n)"
  by (cases r) (auto simp: store_record_def record_key_def entry_store_count)

lemma entry_fold_other:
  "\<forall>r \<in> set rs. record_key r \<noteq> (y, s, n) \<Longrightarrow>
     entry (fold store_record rs years) y s n = entry years y s n"
  by (induction rs arbitrary: years) (simp_all add: entry_store_record)

lemma parse_rows_fold:
  "list_all (\<lambda>row. length row = 3 \<and> py_int (row ! 2) \<noteq> None) rows \<Longrightarrow>
     parse_rows py_int year rows years =
       Inr (fold store_record (concat (map (parsed_row py_int year) rows)) years)"
proof (induction rows arbitrary: years)
  case Nil
  then show ?case by simp
next
  case (Cons row rows)
  then have "length row = 3" and p: "py_int (row ! 2) \<noteq> None" by simp_all
  then obtain name sex cnt where row: "row = [name, sex, cnt]"
    by (auto simp: length_Suc_conv numeral_3_eq_3)
  from p row obtain c where c: "py_int cnt = Some c" by auto
  from Cons.prems have "list_all (\<lambda>row. length row = 3 \<and> py_int (row ! 2) \<noteq> None) rows" by simp
  from Cons.IH [OF this] show ?case
    by (simp add: row c parsed_row_def store_record_def)
qed

lemma parse_files_fold:
  "list_all (well_formed_member py_int rows) (filter is_yob fs) \<Longrightarrow>
     parse_files py_int rows fs years =
       Inr (fold store_record (concat (map (member_records py_int rows) (filter is_yob fs))) years)"
proof (induction fs arbitrary: years)
  case Nil
  then show ?case by simp
next
  case (Cons f fs)
  show ?case
  proof (cases "is_yob f")
    case False
    with Cons show ?thesis by simp
  next
    case True
    with Cons.prems have wf: "well_formed_member py_int rows f"
      and rest: "list_all (well_formed_member py_int rows) (filter is_yob fs)" by simp_all
    from wf obtain year where year: "py_int (year_field f) = Some year"
      and rows: "list_all (\<lambda>row. length row = 3 \<and> py_int (row ! 2) \<noteq> None) (rows f)"
      by (auto simp: well_formed_member_def)
    show ?thesis
      using True by (simp add: year parse_rows_fold [OF rows] Cons.IH [OF rest] member_records_def)
  qed
qed

lemma parse_names_fold:
  "well_formed py_int zf \<Longrightarrow>
     parse_names py_int zf = Inr (fold store_record (records py_int zf) [])"
  by (simp add: parse_names_def well_formed_def records_def parse_files_fold)

lemma is_yob_2020: "is_yob (lit ''yob2020.txt'')"
  by (simp add: is_yob_def lit_def suffix_to_prefix)

lemma not_yob_readme: "\<not> is_yob (lit ''NationalReadMe.pdf'')"
  by (simp add: is_yob_def lit_def)

lemma year_2020: "int_of_digits (year_field (lit ''yob2020.txt'')) = Some 2020"
  by (simp add: year_field_def lit_def int_of_digits_def)

lemma digits_5: "int_of_digits (lit ''5'') = Some 5"
  by (simp add: lit_def int_of_digits_def)

lemma digits_7: "int_of_digits (lit ''7'') = Some 7"
  by (simp add: lit_def int_of_digits_def)

lemma records_duplicate:
  "records int_of_digits duplicate_zip =
     [(2020, lit ''Alex'', lit ''M'', 5), (2020, lit ''Bo'', lit ''M'', 5),
      (2020, lit ''Alex'', lit ''M'', 7)]"
  by (simp add: records_def duplicate_zip_def is_yob_2020 not_yob_readme member_records_def
      year_2020 parsed_row_def digits_5 digits_7)

lemma well_formed_duplicate: "well_formed int_of_digits duplicate_zip"
  by (simp add: well_formed_def duplicate_zip_def is_yob_2020 not_yob_readme
      well_formed_member_def year_2020 digits_5 digits_7)

text \<open>
  Claim C8. When the same (year, sex, name) key appears in several records, the parser raises
  no error and the YearCountTable holds the count of the last record with that key: for an
  archive the parser accepts (whatever its duplicates), \<open>parse_names\<close> returns a table, and a
  record after which no later record has the same key leaves its count under that key.
\<close>
theorem last_seen_wins:
  assumes "well_formed py_int zf"
    and "i < length (records py_int zf)"
    and "records py_int zf ! i = (year, name, sex, c)"
    and "\<forall>j. i < j \<and> j < length (records py_int zf) \<longrightarrow>
           record_key (records py_int zf ! j) \<noteq> (year, sex, name)"
  shows "\<exists>years. parse_names py_int zf = Inr years \<and> entry years year sex name = Some c"
proof -
  let ?rs = "records py_int zf"
  have split: "?rs = take i ?rs @ (year, name, sex, c) # drop (Suc i) ?rs"
    using id_take_nth_drop [OF assms(2)] assms(3) by simp
  have later: "\<forall>r \<in> set (drop (Suc i) ?rs). record_key r \<noteq> (year, sex, name)"
  proof
    fix r assume "r \<in> set (drop (Suc i) ?rs)"
    then obtain k where "k < length (drop (Suc i) ?rs)" and "drop (Suc i) ?rs ! k = r"
      unfolding in_set_conv_nth by blast
    then have "Suc i + k < length ?rs" and "?rs ! (Suc i + k) = r" by simp_all
    with assms(4) show "record_key r \<noteq> (year, sex, name)" by force
  qed
  have "fold store_record ?rs [] =
          fold store_record (drop (Suc i) ?rs)
            (store_record (year, name, sex, c) (fold store_record (take i ?rs) []))"
    by (subst split) simp
  then have "entry (fold store_record ?rs []) year sex name = Some c"
    by (simp add: entry_fold_other [OF later] entry_store_record record_key_def)
  with parse_names_fold [OF assms(1)] show ?thesis by simp
qed

theorem last_seen_wins_witness:
  "well_formed int_of_digits duplicate_zip \<and>
   records int_of_digits duplicate_zip =
     [(2020, lit ''Alex'', lit ''M'', 5), (2020, lit ''Bo'', lit ''M'', 5),
      (2020, lit ''Alex'', lit ''M'', 7)] \<and>
   (\<exists>years. parse_names int_of_digits duplicate_zip = Inr years \<and>
      entry years 2020 (lit ''M'') (lit ''Alex'') = Some 7)"
proof -
  have 1: "(2::nat) < length (records int_of_digits duplicate_zip)"
    by (simp add: records_duplicate)
  have 2: "records int_of_digits duplicate_zip ! 2 = (2020, lit ''Alex'', lit ''M'', 7)"
    by (simp add: records_duplicate)
  have 3: "\<forall>j. 2 < j \<and> j < length (records int_of_digits duplicate_zip) \<longrightarrow>
             record_key (records int_of_digits duplicate_zip ! j) \<noteq> (2020, lit ''M'', lit ''Alex'')"
    by (auto simp: records_duplicate)
  from last_seen_wins [OF well_formed_duplicate 1 2 3]
  show ?thesis using well_formed_duplicate records_duplicate by simp
qed

section \<open>Rank Calculator: proofs\<close>


lemma entry_store_rank:
  assumes "store_rank sex name year rank ranks = Inr ranks'"
  shows "entry ranks' s n y =
           (if s = sex \<and> n = name \<and> y = year then Some rank else entry ranks s n y)"
proof -
  from assms obtain names where names: "map_of ranks sex = Some names"
    and ranks': "ranks' = AList.update sex (store2 name year rank names) ranks"
    by (auto simp: store_rank_def split: option.splits)
  show ?thesis
  proof (cases "s = sex")
    case False
    then show ?thesis by (simp add: entry_def ranks' update_conv')
  next
    case True
    show ?thesis
    proof (cases "n = name")
      case False
      with True show ?thesis by (simp add: entry_def ranks' update_conv' map_of_store2 names)
    next
      case n: True
      with True show ?thesis
        by (simp add: entry_def ranks' update_conv' map_of_store2 names default_get_def
            split: option.splits)
    qed
  qed
qed

lemma store_rank_keys:
  assumes "store_rank sex name year rank ranks = Inr ranks'"
  shows "map_of ranks' s = None \<longleftrightarrow> map_of ranks s = None"
  using assms by (auto simp: store_rank_def update_conv' split: option.splits if_splits)

lemma store_rank_defined:
  "map_of ranks sex \<noteq> None \<Longrightarrow> \<exists>ranks'. store_rank sex name year rank ranks = Inr ranks'"
  by (auto simp: store_rank_def)

lemma assign_ranks_keys:
  "assign_ranks sex year k xs ranks = Inr ranks' \<Longrightarrow>
     (map_of ranks' s = None \<longleftrightarrow> map_of ranks s = None)"
proof (induction xs arbitrary: k ranks)
  case Nil
  then show ?case by simp
next
  case (Cons kv xs)
  then obtain r1 where r1: "store_rank sex (fst kv) year k ranks = Inr r1"
    and rest: "assign_ranks sex year (k + 1) xs r1 = Inr ranks'"
    by (auto split: sum.splits)
  show ?case using Cons.IH [OF rest] store_rank_keys [OF r1] by simp
qed

lemma assign_ranks_defined:
  "map_of ranks sex \<noteq> None \<Longrightarrow> \<exists>ranks'. assign_ranks sex year k xs ranks = Inr ranks'"
proof (induction xs arbitrary: k ranks)
  case Nil
  then show ?case by simp
next
  case (Cons kv xs)
  from store_rank_defined [OF Cons.prems]
  obtain r1 where r1: "store_rank sex (fst kv) year k ranks = Inr r1" by blast
  with Cons.prems have "map_of r1 sex \<noteq> None" by (simp add: store_rank_keys [OF r1])
  from Cons.IH [OF this] r1 show ?case by simp
qed

lemma assign_ranks_other:
  "assign_ranks sex year k xs ranks = Inr ranks' \<Longrightarrow>
     \<not> (s = sex \<and> y = year \<and> n \<in> fst ` set xs) \<Longrightarrow>
     entry ranks' s n y = entry ranks s n y"
proof (induction xs arbitrary: k ranks)
  case Nil
  then show ?case by simp
next
  case (Cons kv xs)
  then obtain r1 where r1: "store_rank sex (fst kv) year k ranks = Inr r1"
    and rest: "assign_ranks sex year (k + 1) xs r1 = Inr ranks'"
    by (auto split: sum.splits)
  from Cons.prems(2) have "entry ranks' s n y = entry r1 s n y"
    by (intro Cons.IH [OF rest]) auto
  also from Cons.prems(2) have "\<dots> = entry ranks s n y"
    by (auto simp: entry_store_rank [OF r1])
  finally show ?case .
qed

lemma assign_ranks_nth:
  "assign_ranks sex year k xs ranks = Inr ranks' \<Longrightarrow> distinct (map fst xs) \<Longrightarrow>
     i < length xs \<Longrightarrow> entry ranks' sex (fst (xs ! i)) year = Some (k + int i)"
proof (induction xs arbitrary: k ranks i)
  case Nil
  then show ?case by simp
next
  case (Cons kv xs)
  then obtain r1 where r1: "store_rank sex (fst kv) year k ranks = Inr r1"
    and rest: "assign_ranks sex year (k + 1) xs r1 = Inr ranks'"
    by (auto split: sum.splits)
  show ?case
  proof (cases i)
    case 0
    from Cons.prems(2) have "fst kv \<notin> fst ` set xs" by simp
    then have "entry ranks' sex (fst kv) year = entry r1 sex (fst kv) year"
      by (intro assign_ranks_other [OF rest]) simp
    then show ?thesis using 0 by (simp add: entry_store_rank [OF r1])
  next
    case (Suc j)
    with Cons.prems have "entry ranks' sex (fst (xs ! j)) year = Some (k + 1 + int j)"
      by (intro Cons.IH [OF rest]) auto
    then show ?thesis using Suc by simp
  qed
qed


lemma sorted_names_keys: "fst ` set (sorted_names nc) = fst ` set nc"
  by (simp add: sorted_names_def)

lemma sorted_names_distinct:
  "distinct (map fst nc) \<Longrightarrow> distinct (map fst (sorted_names nc))"
proof -
  have "mset (map fst (sorted_names nc)) = mset (map fst nc)"
    by (simp add: sorted_names_def)
  then show "distinct (map fst nc) \<Longrightarrow> distinct (map fst (sorted_names nc))"
    using mset_eq_imp_distinct_iff by blast
qed

lemma rank_sexes_keys:
  "rank_sexes year sd ranks = Inr ranks' \<Longrightarrow>
     (map_of ranks' s = None \<longleftrightarrow> map_of ranks s = None)"
proof (induction sd arbitrary: ranks)
  case Nil
  then show ?case by simp
next
  case (Cons sn sd)
  then obtain r1 where r1: "assign_ranks (fst sn) year 1 (sorted_names (snd sn)) ranks = Inr r1"
    and rest: "rank_sexes year sd r1 = Inr ranks'"
    by (auto split: sum.splits)
  show ?case using Cons.IH [OF rest] assign_ranks_keys [OF r1] by simp
qed

lemma rank_sexes_defined:
  "\<forall>sn \<in> set sd. map_of ranks (fst sn) \<noteq> None \<Longrightarrow>
     \<exists>ranks'. rank_sexes year sd ranks = Inr ranks'"
proof (induction sd arbitrary: ranks)
  case Nil
  then show ?case by simp
next
  case (Cons sn sd)
  then have "map_of ranks (fst sn) \<noteq> None" by simp
  from assign_ranks_defined [OF this]
  obtain r1 where r1: "assign_ranks (fst sn) year 1 (sorted_names (snd sn)) ranks = Inr r1"
    by blast
  from Cons.prems have "\<forall>sn \<in> set sd. map_of r1 (fst sn) \<noteq> None"
    by (simp add: assign_ranks_keys [OF r1])
  from Cons.IH [OF this] r1 show ?case by simp
qed

lemma rank_sexes_other:
  "rank_sexes year sd ranks = Inr ranks' \<Longrightarrow>
     \<not> (y = year \<and> (\<exists>nc. (s, nc) \<in> set sd \<and> n \<in> fst ` set nc)) \<Longrightarrow>
     entry ranks' s n y = entry ranks s n y"
proof (induction sd arbitrary: ranks)
  case Nil
  then show ?case by simp
next
  case (Cons sn sd)
  then obtain r1 where r1: "assign_ranks (fst sn) year 1 (sorted_names (snd sn)) ranks = Inr r1"
    and rest: "rank_sexes year sd r1 = Inr ranks'"
    by (auto split: sum.splits)
  from Cons.prems(2) have "entry ranks' s n y = entry r1 s n y"
    by (intro Cons.IH [OF rest]) auto
  also have "\<dots> = entry ranks s n y"
  proof (rule assign_ranks_other [OF r1])
    show "\<not> (s = fst sn \<and> y = year \<and> n \<in> fst ` set (sorted_names (snd sn)))"
      using Cons.prems(2) by (cases sn) (auto simp: sorted_names_keys)
  qed
  finally show ?case .
qed

lemma rank_sexes_nth:
  "rank_sexes year sd ranks = Inr ranks' \<Longrightarrow> distinct (map fst sd) \<Longrightarrow>
     (s, nc) \<in> set sd \<Longrightarrow> distinct (map fst nc) \<Longrightarrow> i < length nc \<Longrightarrow>
     entry ranks' s (fst (sorted_names nc ! i)) year = Some (1 + int i)"
proof (induction sd arbitrary: ranks)
  case Nil
  then show ?case by simp
next
  case (Cons sn sd)
  then obtain r1 where r1: "assign_ranks (fst sn) year 1 (sorted_names (snd sn)) ranks = Inr r1"
    and rest: "rank_sexes year sd r1 = Inr ranks'"
    by (auto split: sum.splits)
  show ?case
  proof (cases "(s, nc) \<in> set sd")
    case True
    with Cons.prems show ?thesis by (intro Cons.IH [OF rest]) auto
  next
    case False
    with Cons.prems(3) have sn: "sn = (s, nc)" by simp
    from Cons.prems(2) sn have "s \<notin> fst ` set sd" by simp
    then have "entry ranks' s (fst (sorted_names nc ! i)) year =
                 entry r1 s (fst (sorted_names nc ! i)) year"
      by (intro rank_sexes_other [OF rest]) force
    also have "\<dots> = Some (1 + int i)"
      using r1 Cons.prems(4,5) unfolding sn
      by (intro assign_ranks_nth) (simp_all add: sorted_names_distinct, simp add: sorted_names_def)
    finally show ?thesis .
  qed
qed


lemma rank_years_keys:
  "rank_years yd ranks = Inr ranks' \<Longrightarrow>
     (map_of ranks' s = None \<longleftrightarrow> map_of ranks s = None)"
proof (induction yd arbitrary: ranks)
  case Nil
  then show ?case by simp
next
  case (Cons ys yd)
  then obtain r1 where r1: "rank_sexes (fst ys) (snd ys) ranks = Inr r1"
    and rest: "rank_years yd r1 = Inr ranks'"
    by (auto split: sum.splits)
  show ?case using Cons.IH [OF rest] rank_sexes_keys [OF r1] by simp
qed

lemma rank_years_defined:
  "\<forall>ys \<in> set yd. \<forall>sn \<in> set (snd ys). map_of ranks (fst sn) \<noteq> None \<Longrightarrow>
     \<exists>ranks'. rank_years yd ranks = Inr ranks'"
proof (induction yd arbitrary: ranks)
  case Nil
  then show ?case by simp
next
  case (Cons ys yd)
  then have "\<forall>sn \<in> set (snd ys). map_of ranks (fst sn) \<noteq> None" by simp
  from rank_sexes_defined [OF this]
  obtain r1 where r1: "rank_sexes (fst ys) (snd ys) ranks = Inr r1" by blast
  from Cons.prems have "\<forall>ys \<in> set yd. \<forall>sn \<in> set (snd ys). map_of r1 (fst sn) \<noteq> None"
    by (simp add: rank_sexes_keys [OF r1])
  from Cons.IH [OF this] r1 show ?case by simp
qed

lemma rank_years_other:
  "rank_years yd ranks = Inr ranks' \<Longrightarrow>
     \<not> (\<exists>sd nc. (y, sd) \<in> set yd \<and> (s, nc) \<in> set sd \<and> n \<in> fst ` set nc) \<Longrightarrow>
     entry ranks' s n y = entry ranks s n y"
proof (induction yd arbitrary: ranks)
  case Nil
  then show ?case by simp
next
  case (Cons ys yd)
  then obtain r1 where r1: "rank_sexes (fst ys) (snd ys) ranks = Inr r1"
    and rest: "rank_years yd r1 = Inr ranks'"
    by (auto split: sum.splits)
  from Cons.prems(2) have "entry ranks' s n y = entry r1 s n y"
    by (intro Cons.IH [OF rest]) auto
  also have "\<dots> = entry ranks s n y"
  proof (rule rank_sexes_other [OF r1])
    show "\<not> (y = fst ys \<and> (\<exists>nc. (s, nc) \<in> set (snd ys) \<and> n \<in> fst ` set nc))"
      using Cons.prems(2) by (cases ys) auto
  qed
  finally show ?case .
qed

lemma rank_years_nth:
  "rank_years yd ranks = Inr ranks' \<Longrightarrow> distinct (map fst yd) \<Longrightarrow>
     (y, sd) \<in> set yd \<Longrightarrow> distinct (map fst sd) \<Longrightarrow>
     (s, nc) \<in> set sd \<Longrightarrow> distinct (map fst nc) \<Longrightarrow> i < length nc \<Longrightarrow>
     entry ranks' s (fst (sorted_names nc ! i)) y = Some (1 + int i)"
proof (induction yd arbitrary: ranks)
  case Nil
  then show ?case by simp
next
  case (Cons ys yd)
  then obtain r1 where r1: "rank_sexes (fst ys) (snd ys) ranks = Inr r1"
    and rest: "rank_years yd r1 = Inr ranks'"
    by (auto split: sum.splits)
  show ?case
  proof (cases "(y, sd) \<in> set yd")
    case True
    with Cons.prems show ?thesis by (intro Cons.IH [OF rest]) auto
  next
    case False
    with Cons.prems(3) have ys: "ys = (y, sd)" by simp
    from Cons.prems(2) ys have "y \<notin> fst ` set yd" by simp
    then have "entry ranks' s (fst (sorted_names nc ! i)) y =
                 entry r1 s (fst (sorted_names nc ! i)) y"
      by (intro rank_years_other [OF rest]) force
    also have "\<dots> = Some (1 + int i)"
      using r1 Cons.prems(4,5,6,7) unfolding ys
      by (intro rank_sexes_nth [where sd = sd and ranks = ranks]) simp_all
    finally show ?thesis .
  qed
qed

lemma group_of_mem:
  assumes "year_counts_ok years" and "group_of years year sex = Some nc"
  obtains sd where "(year, sd) \<in> set years" and "distinct (map fst sd)"
    and "(sex, nc) \<in> set sd" and "distinct (map fst nc)"
proof -
  from assms(2) obtain sd where sd: "map_of years year = Some sd" and nc: "map_of sd sex = Some nc"
    by (auto simp: group_of_def split: option.splits)
  from sd have 1: "(year, sd) \<in> set years" by (rule map_of_SomeD)
  from nc have 2: "(sex, nc) \<in> set sd" by (rule map_of_SomeD)
  from assms(1) 1 have 3: "distinct (map fst sd)"
    and 4: "list_all (\<lambda>sn. distinct_keys (snd sn)) sd"
    by (auto simp: year_counts_ok_def list_all_iff distinct_keys_def)
  from 4 2 have 5: "distinct (map fst nc)" by (auto simp: list_all_iff distinct_keys_def)
  show ?thesis by (rule that [OF 1 3 2 5])
qed

lemma entry_initial: "entry [(lit ''M'', []), (lit ''F'', [])] s n y = None"
  by (simp add: entry_def)

lemma compute_ranks_nth:
  assumes "compute_ranks years = Inr ranks" and "year_counts_ok years"
    and "group_of years year sex = Some nc" and "i < length nc"
  shows "entry ranks sex (fst (sorted_names nc ! i)) year = Some (1 + int i)"
proof -
  from assms(2,3) obtain sd where "(year, sd) \<in> set years" "distinct (map fst sd)"
    "(sex, nc) \<in> set sd" "distinct (map fst nc)"
    by (rule group_of_mem)
  moreover from assms(2) have "distinct (map fst years)"
    by (simp add: year_counts_ok_def distinct_keys_def)
  ultimately show ?thesis
    using assms(1,4) unfolding compute_ranks_def by (intro rank_years_nth) simp_all
qed

lemma compute_ranks_present:
  assumes "compute_ranks years = Inr ranks" and "year_counts_ok years"
    and "entry ranks sex name year \<noteq> None"
  shows "\<exists>nc. group_of years year sex = Some nc \<and> name \<in> fst ` set nc"
proof (rule ccontr)
  assume no: "\<not> ?thesis"
  have "\<not> (\<exists>sd nc. (year, sd) \<in> set years \<and> (sex, nc) \<in> set sd \<and> name \<in> fst ` set nc)"
  proof
    assume "\<exists>sd nc. (year, sd) \<in> set years \<and> (sex, nc) \<in> set sd \<and> name \<in> fst ` set nc"
    then obtain sd nc where 1: "(year, sd) \<in> set years" and 2: "(sex, nc) \<in> set sd"
      and 3: "name \<in> fst ` set nc" by blast
    from assms(2) have dy: "distinct (map fst years)"
      by (simp add: year_counts_ok_def distinct_keys_def)
    from assms(2) 1 have ds: "distinct (map fst sd)"
      by (auto simp: year_counts_ok_def list_all_iff distinct_keys_def)
    from dy 1 have "map_of years year = Some sd" by simp
    moreover from ds 2 have "map_of sd sex = Some nc" by simp
    ultimately have "group_of years year sex = Some nc" by (simp add: group_of_def)
    with 3 no show False by blast
  qed
  with assms(1) have "entry ranks sex name year = entry [(lit ''M'', []), (lit ''F'', [])] sex name year"
    unfolding compute_ranks_def by (rule rank_years_other)
  with assms(3) show False by (simp add: entry_initial)
qed

lemma compute_ranks_defined:
  assumes "known_sexes years"
  shows "\<exists>ranks. compute_ranks years = Inr ranks"
  unfolding compute_ranks_def
proof (rule rank_years_defined, intro ballI)
  fix ys sn assume "ys \<in> set years" and "sn \<in> set (snd ys)"
  with assms have "fst sn = lit ''M'' \<or> fst sn = lit ''F''"
    by (auto simp: known_sexes_def list_all_iff)
  then show "map_of [(lit ''M'', []), (lit ''F'', [])] (fst sn) \<noteq> None" by auto
qed

lemma list_all_update:
  "list_all P al \<Longrightarrow> P (k, v) \<Longrightarrow> list_all P (AList.update k v al)"
  by (induction al) auto

lemma store2_distinct:
  "distinct_keys d \<Longrightarrow> distinct_keys (store2 k2 k3 v d)"
  by (simp add: distinct_keys_def store2_def distinct_update)

lemma store_rank_distinct:
  assumes "store_rank sex name year rank ranks = Inr ranks'" and "distinct_names ranks"
  shows "distinct_names ranks'"
proof -
  from assms(1) obtain names where names: "map_of ranks sex = Some names"
    and ranks': "ranks' = AList.update sex (store2 name year rank names) ranks"
    by (auto simp: store_rank_def split: option.splits)
  from names have "(sex, names) \<in> set ranks" by (rule map_of_SomeD)
  with assms(2) have "distinct_keys names" by (auto simp: distinct_names_def list_all_iff)
  then have "distinct_keys (store2 name year rank names)" by (rule store2_distinct)
  with assms(2) show ?thesis
    unfolding ranks' distinct_names_def by (simp add: list_all_update)
qed

lemma assign_ranks_distinct:
  "assign_ranks sex year k xs ranks = Inr ranks' \<Longrightarrow> distinct_names ranks \<Longrightarrow>
     distinct_names ranks'"
proof (induction xs arbitrary: k ranks)
  case Nil
  then show ?case by simp
next
  case (Cons kv xs)
  then obtain r1 where r1: "store_rank sex (fst kv) year k ranks = Inr r1"
    and rest: "assign_ranks sex year (k + 1) xs r1 = Inr ranks'"
    by (auto split: sum.splits)
  from store_rank_distinct [OF r1 Cons.prems(2)] show ?case by (rule Cons.IH [OF rest])
qed

lemma rank_sexes_distinct:
  "rank_sexes year sd ranks = Inr ranks' \<Longrightarrow> distinct_names ranks \<Longrightarrow> distinct_names ranks'"
proof (induction sd arbitrary: ranks)
  case Nil
  then show ?case by simp
next
  case (Cons sn sd)
  then obtain r1 where r1: "assign_ranks (fst sn) year 1 (sorted_names (snd sn)) ranks = Inr r1"
    and rest: "rank_sexes year sd r1 = Inr ranks'"
    by (auto split: sum.splits)
  from assign_ranks_distinct [OF r1 Cons.prems(2)] show ?case by (rule Cons.IH [OF rest])
qed

lemma rank_years_distinct:
  "rank_years yd ranks = Inr ranks' \<Longrightarrow> distinct_names ranks \<Longrightarrow> distinct_names ranks'"
proof (induction yd arbitrary: ranks)
  case Nil
  then show ?case by simp
next
  case (Cons ys yd)
  then obtain r1 where r1: "rank_sexes (fst ys) (snd ys) ranks = Inr r1"
    and rest: "rank_years yd r1 = Inr ranks'"
    by (auto split: sum.splits)
  from rank_sexes_distinct [OF r1 Cons.prems(2)] show ?case by (rule Cons.IH [OF rest])
qed

text \<open>
  Every table that \<open>compute_ranks\<close> returns holds its two sexes, with distinct names under
  each: the Trend Selector's assumptions on a RankTable.
\<close>

lemma compute_ranks_rank_table:
  assumes "compute_ranks years = Inr ranks"
  shows "both_sexes ranks \<and> distinct_names ranks"
proof -
  have "both_sexes [(lit ''M'', []), (lit ''F'', [])]" by (simp add: both_sexes_def)
  then have "both_sexes ranks"
    using assms rank_years_keys [of years "[(lit ''M'', []), (lit ''F'', [])]" ranks]
    by (simp add: both_sexes_def compute_ranks_def)
  moreover have "distinct_names [(lit ''M'', []), (lit ''F'', [])]"
    by (simp add: distinct_names_def distinct_keys_def)
  with assms have "distinct_names ranks"
    unfolding compute_ranks_def by (rule rank_years_distinct)
  ultimately show ?thesis by simp
qed

lemma compute_ranks_example: "compute_ranks example_years = Inr example_ranks"
  by (simp add: example_years_def example_ranks_def compute_ranks_def sorted_names_def
      count_key_def store_rank_def store2_def default_get_def lit_def)

lemma example_years_ok: "year_counts_ok example_years"
  by (simp add: year_counts_ok_def distinct_keys_def example_years_def lit_def)

lemma example_years_known: "known_sexes example_years"
  by (simp add: known_sexes_def example_years_def)

lemma group_of_example:
  "group_of example_years 2021 (lit ''M'') = Some [(lit ''Alex'', 100), (lit ''Sam'', 100)]"
  by (simp add: group_of_def example_years_def)

lemma count_key_less:
  "count_key (n1, c1) < count_key (n2, c2) \<longleftrightarrow> c1 > c2 \<or> (c1 = c2 \<and> n1 < n2)"
  by (auto simp: count_key_def)

lemma sorted_names_sorted: "sorted (map count_key (sorted_names nc))"
  by (simp add: sorted_names_def)

text \<open>
  Claim C9. For the empty YearCountTable, \<open>compute_ranks\<close> returns without error the table
  that holds the two empty sexes and therefore no (sex, name, year) rank entry.
\<close>
theorem empty_table:
  "compute_ranks [] = Inr [(lit ''M'', []), (lit ''F'', [])] \<and>
   (\<forall>sex name year. entry [(lit ''M'', []), (lit ''F'', [])] sex name year = None)"
  by (simp add: compute_ranks_def entry_initial)

text \<open>
  Claim C6, which says that the Rank Calculator succeeds on every table the parser can
  produce, sex codes other than \<open>M\<close> and \<open>F\<close> included. It does not: the parser turns
  the record \<open>Alex,X,5\<close> of \<open>yob2020.txt\<close> into a YearCountTable, stored verbatim, on which
  \<open>compute_ranks\<close> raises \<open>KeyError\<close>.
\<close>
theorem other_sex_code_counterexample:
  "parse_names int_of_digits other_sex_zip = Inr other_sex_years \<and>
   compute_ranks other_sex_years = Inl KeyError"
proof -
  have "is_yob (lit ''yob2020.txt'')" by (rule is_yob_2020)
  then have "parse_names int_of_digits other_sex_zip = Inr other_sex_years"
    by (simp add: parse_names_def other_sex_zip_def year_2020 digits_5 store_count_def
        store2_def default_get_def other_sex_years_def)
  moreover have "compute_ranks other_sex_years = Inl KeyError"
    by (simp add: other_sex_years_def compute_ranks_def sorted_names_def store_rank_def lit_def)
  ultimately show ?thesis by simp
qed

text \<open>
  Claim C6, amended. For every YearCountTable all of whose sex codes are \<open>M\<close> or \<open>F\<close>,
  \<open>compute_ranks\<close> succeeds and records a rank under \<open>ranks[sex][name][year]\<close> for every
  (year, sex, name) present.
\<close>
theorem known_sexes_ranked:
  assumes "year_counts_ok years" and "known_sexes years"
  shows "\<exists>ranks. compute_ranks years = Inr ranks \<and>
           (\<forall>year sex nc name. group_of years year sex = Some nc \<longrightarrow> name \<in> fst ` set nc \<longrightarrow>
              entry ranks sex name year \<noteq> None)"
proof -
  from compute_ranks_defined [OF assms(2)]
  obtain ranks where r: "compute_ranks years = Inr ranks" by blast
  have "entry ranks sex name year \<noteq> None"
    if g: "group_of years year sex = Some nc" and n: "name \<in> fst ` set nc"
    for year sex nc name
  proof -
    from n have "name \<in> fst ` set (sorted_names nc)" by (simp add: sorted_names_keys)
    then obtain i where i: "i < length (sorted_names nc)" and "fst (sorted_names nc ! i) = name"
      by (auto simp: in_set_conv_nth)
    moreover from i have "i < length nc" by (simp add: sorted_names_def)
    ultimately show ?thesis using compute_ranks_nth [OF r assms(1) g, of i] by simp
  qed
  with r show ?thesis by blast
qed

theorem known_sexes_ranked_witness:
  "year_counts_ok example_years \<and> known_sexes example_years \<and>
   (\<exists>ranks. compute_ranks example_years = Inr ranks \<and>
      entry ranks (lit ''M'') (lit ''Sam'') 2021 \<noteq> None)"
proof -
  from known_sexes_ranked [OF example_years_ok example_years_known]
  obtain ranks where r: "compute_ranks example_years = Inr ranks"
    and all: "\<forall>year sex nc name. group_of example_years year sex = Some nc \<longrightarrow>
                name \<in> fst ` set nc \<longrightarrow> entry ranks sex name year \<noteq> None"
    by blast
  from all group_of_example have "entry ranks (lit ''M'') (lit ''Sam'') 2021 \<noteq> None"
    by force
  with r example_years_ok example_years_known show ?thesis by blast
qed

text \<open>
  Claim C3. For every (year, sex) group of a YearCountTable, with K distinct names, the ranks
  that \<open>compute_ranks\<close> records for that year and sex are exactly the set 1..K, no two names
  of the group share a rank, and the names ranked are the names of the group.
\<close>
theorem dense_ranks:
  assumes "compute_ranks years = Inr ranks" and "year_counts_ok years"
    and "group_of years year sex = Some nc"
  shows "{rank. \<exists>name. entry ranks sex name year = Some rank} = {1 .. int (card (fst ` set nc))} \<and>
         inj_on (\<lambda>name. entry ranks sex name year) (fst ` set nc) \<and>
         (\<forall>name. entry ranks sex name year \<noteq> None \<longleftrightarrow> name \<in> fst ` set nc)"
proof -
  let ?sn = "sorted_names nc"
  from assms(2,3) obtain sd where "distinct (map fst nc)" by (rule group_of_mem)
  then have d: "distinct (map fst ?sn)" by (rule sorted_names_distinct)
  have len: "length ?sn = length nc" by (simp add: sorted_names_def)
  have card: "card (fst ` set nc) = length nc"
    using \<open>distinct (map fst nc)\<close> distinct_card [of "map fst nc"] by simp
  have nth: "entry ranks sex (fst (?sn ! i)) year = Some (1 + int i)" if "i < length nc" for i
    using compute_ranks_nth [OF assms that] .
  have present: "name \<in> fst ` set nc" if "entry ranks sex name year \<noteq> None" for name
    using compute_ranks_present [OF assms(1,2) that] assms(3) by simp
  have idx: "\<exists>i<length nc. name = fst (?sn ! i)" if "name \<in> fst ` set nc" for name
  proof -
    from that have "name \<in> set (map fst ?sn)" by (simp add: sorted_names_keys)
    then obtain i where "i < length (map fst ?sn)" and "map fst ?sn ! i = name"
      unfolding in_set_conv_nth by blast
    then show ?thesis by (auto simp: len)
  qed
  have 1: "{rank. \<exists>name. entry ranks sex name year = Some rank} = {1 .. int (card (fst ` set nc))}"
  proof (intro set_eqI iffI)
    fix rank assume "rank \<in> {rank. \<exists>name. entry ranks sex name year = Some rank}"
    then obtain name where e: "entry ranks sex name year = Some rank" by blast
    then have "name \<in> fst ` set nc" using present by simp
    from idx [OF this] obtain i where "i < length nc" "name = fst (?sn ! i)" by blast
    with nth [of i] e show "rank \<in> {1 .. int (card (fst ` set nc))}" by (simp add: card)
  next
    fix rank assume "rank \<in> {1 .. int (card (fst ` set nc))}"
    then have "nat (rank - 1) < length nc" and "1 + int (nat (rank - 1)) = rank"
      by (auto simp: card)
    with nth [of "nat (rank - 1)"]
    show "rank \<in> {rank. \<exists>name. entry ranks sex name year = Some rank}" by auto
  qed
  have 2: "inj_on (\<lambda>name. entry ranks sex name year) (fst ` set nc)"
  proof (rule inj_onI)
    fix a b assume a: "a \<in> fst ` set nc" and b: "b \<in> fst ` set nc"
      and eq: "entry ranks sex a year = entry ranks sex b year"
    from idx [OF a] obtain i where i: "i < length nc" "a = fst (?sn ! i)" by blast
    from idx [OF b] obtain j where j: "j < length nc" "b = fst (?sn ! j)" by blast
    from eq nth [OF i(1)] nth [OF j(1)] i(2) j(2) have "i = j" by simp
    with i j show "a = b" by simp
  qed
  have 3: "entry ranks sex name year \<noteq> None \<longleftrightarrow> name \<in> fst ` set nc" for name
  proof
    assume "name \<in> fst ` set nc"
    from idx [OF this] obtain i where "i < length nc" "name = fst (?sn ! i)" by blast
    with nth [of i] show "entry ranks sex name year \<noteq> None" by simp
  qed (rule present)
  from 1 2 3 show ?thesis by blast
qed

theorem dense_ranks_witness:
  "compute_ranks example_years = Inr example_ranks \<and> year_counts_ok example_years \<and>
   group_of example_years 2021 (lit ''M'') = Some [(lit ''Alex'', 100), (lit ''Sam'', 100)] \<and>
   {rank. \<exists>name. entry example_ranks (lit ''M'') name 2021 = Some rank} = {1 .. 2}"
proof -
  have "card (fst ` set [(lit ''Alex'', 100::int), (lit ''Sam'', 100)]) = 2"
    by (simp add: lit_def)
  with dense_ranks [OF compute_ranks_example example_years_ok group_of_example]
  show ?thesis using compute_ranks_example example_years_ok group_of_example by simp
qed

text \<open>
  Claim C4. Within a (year, sex) group, a name gets a smaller rank than another exactly when
  its count is greater or, the counts being equal, when it is the smaller name in code point
  order.
\<close>
theorem tie_break:
  assumes "compute_ranks years = Inr ranks" and "year_counts_ok years"
    and "group_of years year sex = Some nc"
    and "(n1, c1) \<in> set nc" and "(n2, c2) \<in> set nc"
  shows "\<exists>r1 r2. entry ranks sex n1 year = Some r1 \<and> entry ranks sex n2 year = Some r2 \<and>
           (r1 < r2 \<longleftrightarrow> c1 > c2 \<or> (c1 = c2 \<and> n1 < n2))"
proof -
  let ?sn = "sorted_names nc"
  from assms(2,3) obtain sd where "distinct (map fst nc)" by (rule group_of_mem)
  then have d: "distinct (map fst ?sn)" by (rule sorted_names_distinct)
  have len: "length ?sn = length nc" by (simp add: sorted_names_def)
  have set: "set ?sn = set nc" by (simp add: sorted_names_def)
  from assms(4) set have "(n1, c1) \<in> set ?sn" by simp
  then obtain i where i: "i < length nc" "?sn ! i = (n1, c1)"
    unfolding in_set_conv_nth len by blast
  from assms(5) set have "(n2, c2) \<in> set ?sn" by simp
  then obtain j where j: "j < length nc" "?sn ! j = (n2, c2)"
    unfolding in_set_conv_nth len by blast
  have r1: "entry ranks sex n1 year = Some (1 + int i)"
    using compute_ranks_nth [OF assms(1,2,3) i(1)] i(2) by simp
  have r2: "entry ranks sex n2 year = Some (1 + int j)"
    using compute_ranks_nth [OF assms(1,2,3) j(1)] j(2) by simp
  have mono: "count_key (?sn ! a) \<le> count_key (?sn ! b)" if "a \<le> b" "b < length nc" for a b
    using sorted_names_sorted [of nc] that by (simp add: sorted_iff_nth_mono len)
  have neq: "fst (?sn ! a) \<noteq> fst (?sn ! b)" if "a < length nc" "b < length nc" "a \<noteq> b" for a b
    using d that by (simp add: distinct_conv_nth len)
  have "i < j \<longleftrightarrow> count_key (n1, c1) < count_key (n2, c2)"
  proof
    assume "i < j"
    with mono [of i j] j(1) i(2) j(2) have "count_key (n1, c1) \<le> count_key (n2, c2)" by simp
    moreover from neq [OF i(1) j(1)] \<open>i < j\<close> i(2) j(2) have "n1 \<noteq> n2" by simp
    then have "count_key (n1, c1) \<noteq> count_key (n2, c2)" by (simp add: count_key_def)
    ultimately show "count_key (n1, c1) < count_key (n2, c2)" by simp
  next
    assume lt: "count_key (n1, c1) < count_key (n2, c2)"
    show "i < j"
    proof (rule ccontr)
      assume "\<not> i < j"
      then have "j \<le> i" by simp
      with mono [of j i] i(1) i(2) j(2) have "count_key (n2, c2) \<le> count_key (n1, c1)" by simp
      with lt show False by simp
    qed
  qed
  then have "(1 + int i < 1 + int j) \<longleftrightarrow> c1 > c2 \<or> (c1 = c2 \<and> n1 < n2)"
    by (simp add: count_key_less)
  with r1 r2 show ?thesis by blast
qed

theorem tie_break_witness:
  "compute_ranks example_years = Inr example_ranks \<and> year_counts_ok example_years \<and>
   group_of example_years 2021 (lit ''M'') = Some [(lit ''Alex'', 100), (lit ''Sam'', 100)] \<and>
   (\<exists>r1 r2. entry example_ranks (lit ''M'') (lit ''Alex'') 2021 = Some r1 \<and>
             entry example_ranks (lit ''M'') (lit ''Sam'') 2021 = Some r2 \<and> r1 < r2)"
proof -
  have lt: "lit ''Alex'' < lit ''Sam''" by (simp add: lit_def)
  from tie_break [OF compute_ranks_example example_years_ok group_of_example,
      of "lit ''Alex''" 100 "lit ''Sam''" 100]
  obtain r1 r2 where "entry example_ranks (lit ''M'') (lit ''Alex'') 2021 = Some r1"
    and "entry example_ranks (lit ''M'') (lit ''Sam'') 2021 = Some r2"
    and "r1 < r2 \<longleftrightarrow> (100::int) > 100 \<or> ((100::int) = 100 \<and> lit ''Alex'' < lit ''Sam'')"
    by auto
  with lt show ?thesis using compute_ranks_example example_years_ok group_of_example by auto
qed

section \<open>Trend Selector: proofs\<close>

lemma all_years_example: "all_years example_ranks = {2021, 2022}"
  by (auto simp add: all_years_def example_ranks_def)

lemma card_years_example: "card (all_years example_ranks) = 2"
  by (simp add: all_years_example)

lemma last_year_example: "last_year example_ranks = 2022"
  by (simp add: last_year_def all_years_example)

lemma prev_year_example: "prev_year example_ranks = 2021"
proof -
  have "{y \<in> {2021, 2022::int}. y < 2022} = {2021}" by auto
  then show ?thesis by (simp add: prev_year_def all_years_example last_year_example)
qed

lemma trending_list_example:
  "trending_list example_ranks = Inr [(lit ''Alex'', lit ''M'', 2, 1, -1), (lit ''Sam'', lit ''M'', 1, 2, 1)]"
  by (simp add: trending_list_def last_year_example prev_year_example) (simp add: example_ranks_def lit_def)

lemma both_sexes_example: "both_sexes example_ranks"
  by (simp add: both_sexes_def example_ranks_def lit_def)

text \<open>
  Claim C5. When fewer than two distinct years appear in a RankTable,
  \<open>calculate_trending\<close> returns the empty list, without error, for every requested count.
\<close>
theorem insufficient_history:
  "card (all_years ranks) < 2 \<Longrightarrow> calculate_trending ranks top_n = Inr []"
  by (simp add: calculate_trending_def)

theorem insufficient_history_witness:
  "card (all_years single_year_ranks) < 2 \<and> calculate_trending single_year_ranks 10 = Inr []"
proof -
  have "all_years single_year_ranks = {2021}" by (auto simp: all_years_def single_year_ranks_def)
  then have h: "card (all_years single_year_ranks) < 2" by simp
  show ?thesis using h insufficient_history [OF h, of 10] by simp
qed

lemma trend_key_le: "trend_key a \<le> trend_key b \<longleftrightarrow> trend_order a b"
  by (cases a; cases b) (auto simp: trend_key_def trend_order_def)

lemma sorted_trend_order: "sorted_wrt trend_order (sort_key trend_key cands)"
proof -
  have "sorted (map trend_key (sort_key trend_key cands))" by (rule sorted_sort_key)
  then show ?thesis by (simp add: sorted_map trend_key_le)
qed

lemma trending_list_defined:
  "both_sexes ranks \<Longrightarrow> \<exists>cands. trending_list ranks = Inr cands"
  by (auto simp: both_sexes_def trending_list_def)

text \<open>
  Claim C1. For a RankTable with at least two distinct years (holding its two sexes, as every
  RankTable does) and a count \<open>n \<ge> 0\<close>, the result of \<open>calculate_trending\<close> is the first
  \<open>n\<close> entries of the sorted candidate list, and that list is a rearrangement of the
  candidates in the order of the specification: improvement descending, then current rank
  ascending, then name ascending.
\<close>
theorem sorted_and_truncated:
  assumes "2 \<le> card (all_years ranks)" and "both_sexes ranks" and "0 \<le> n"
  shows "\<exists>cands. trending_list ranks = Inr cands \<and>
           calculate_trending ranks n = Inr (take (nat n) (sort_key trend_key cands)) \<and>
           sorted_wrt trend_order (sort_key trend_key cands) \<and>
           mset (sort_key trend_key cands) = mset cands"
proof -
  from assms(2) obtain cands where c: "trending_list ranks = Inr cands"
    using trending_list_defined by blast
  from assms(1) have "\<not> card (all_years ranks) < 2" by simp
  with c assms(3) have "calculate_trending ranks n = Inr (take (nat n) (sort_key trend_key cands))"
    by (simp add: calculate_trending_def slice_to_def)
  with c show ?thesis by (simp add: sorted_trend_order)
qed


theorem sorted_and_truncated_witness:
  "2 \<le> card (all_years example_ranks) \<and> both_sexes example_ranks \<and> (0::int) \<le> 1 \<and>
   calculate_trending example_ranks 1 = Inr [(lit ''Sam'', lit ''M'', 1, 2, 1)]"
proof -
  have h1: "2 \<le> card (all_years example_ranks)" by (simp add: card_years_example)
  have h3: "(0::int) \<le> 1" by simp
  from sorted_and_truncated [OF h1 both_sexes_example h3]
  have "calculate_trending example_ranks 1 =
          Inr (take (nat 1) (sort_key trend_key [(lit ''Alex'', lit ''M'', 2, 1, -1), (lit ''Sam'', lit ''M'', 1, 2, 1)]))"
    by (simp add: trending_list_example)
  then have "calculate_trending example_ranks 1 = Inr [(lit ''Sam'', lit ''M'', 1, 2, 1)]"
    by (simp add: trend_key_def lit_def)
  with h1 h3 both_sexes_example show ?thesis by simp
qed

text \<open>
  Claim C7, which says that every count \<open>N \<le> 0\<close> yields an empty TrendList. For the
  RankTable of the example scenario and \<open>N = -1\<close> the result has one entry.
\<close>
theorem negative_count_counterexample:
  "calculate_trending example_ranks (- 1) = Inr [(lit ''Sam'', lit ''M'', 1, 2, 1)] \<and>
   calculate_trending example_ranks (- 1) \<noteq> Inr []"
  by (simp add: calculate_trending_def card_years_example trending_list_example slice_to_def
      trend_key_def lit_def)

text \<open>
  Claim C7, amended. The count 0 yields an empty TrendList; a negative count \<open>n\<close> yields
  the sorted candidate list without its last \<open>-n\<close> entries (the empty list when there are
  fewer than two years).
\<close>
theorem nonpositive_count:
  assumes "both_sexes ranks"
  shows "calculate_trending ranks 0 = Inr [] \<and>
         (\<forall>n<0. \<exists>cands. trending_list ranks = Inr cands \<and>
            calculate_trending ranks n =
              Inr (if card (all_years ranks) < 2 then []
                   else take (length cands - nat (- n)) (sort_key trend_key cands)))"
proof -
  from assms obtain cands where c: "trending_list ranks = Inr cands"
    using trending_list_defined by blast
  then show ?thesis
    by (simp add: calculate_trending_def slice_to_def)
qed

theorem nonpositive_count_witness:
  "both_sexes example_ranks \<and> (- 1 :: int) < 0 \<and>
   calculate_trending example_ranks 0 = Inr [] \<and>
   calculate_trending example_ranks (- 1) = Inr (take (2 - 1) [(lit ''Sam'', lit ''M'', 1, 2, 1), (lit ''Alex'', lit ''M'', 2, 1, - 1)])"
proof -
  from nonpositive_count [OF both_sexes_example]
  have "calculate_trending example_ranks 0 = Inr []"
    and "\<forall>n<0. \<exists>cands. trending_list example_ranks = Inr cands \<and>
            calculate_trending example_ranks n =
              Inr (if card (all_years example_ranks) < 2 then []
                   else take (length cands - nat (- n)) (sort_key trend_key cands))"
    by blast+
  then show ?thesis
    using both_sexes_example
    by (simp add: trending_list_example card_years_example trend_key_def lit_def)
qed


lemma sex_candidates_sex:
  "e \<in> set (sex_candidates l p sex names) \<Longrightarrow> fst (snd e) = sex"
  by (induction names) (auto split: option.splits)

lemma sorted_wrt_filter_iff:
  "sorted_wrt R (filter P xs) = sorted_wrt (\<lambda>a b. P a \<longrightarrow> P b \<longrightarrow> R a b) xs"
  by (induction xs) auto

lemma sorted_wrt_all:
  "(\<And>x y. x \<in> set xs \<Longrightarrow> y \<in> set xs \<Longrightarrow> R x y) \<Longrightarrow> sorted_wrt R xs"
  by (induction xs) auto

lemma trending_list_sexes:
  assumes "trending_list ranks = Inr cands"
  shows "sorted_wrt (\<lambda>a b. \<not> (fst (snd a) = lit ''F'' \<and> fst (snd b) = lit ''M'')) cands"
proof -
  from assms obtain m f where
    cands: "cands = sex_candidates (last_year ranks) (prev_year ranks) (lit ''M'') m @
                    sex_candidates (last_year ranks) (prev_year ranks) (lit ''F'') f"
    by (auto simp: trending_list_def split: option.splits)
  have ne: "lit ''M'' \<noteq> lit ''F''" by (simp add: lit_def)
  have 1: "sorted_wrt (\<lambda>a b. \<not> (fst (snd a) = lit ''F'' \<and> fst (snd b) = lit ''M''))
             (sex_candidates l p sex ns)" for l p sex ns
    by (rule sorted_wrt_all) (auto dest!: sex_candidates_sex simp: lit_def)
  show ?thesis unfolding cands sorted_wrt_append
  proof (intro conjI ballI)
    fix x y
    assume "x \<in> set (sex_candidates (last_year ranks) (prev_year ranks) (lit ''M'') m)"
    then have "fst (snd x) = lit ''M''" by (rule sex_candidates_sex)
    then show "\<not> (fst (snd x) = lit ''F'' \<and> fst (snd y) = lit ''M'')" using ne by simp
  qed (rule 1)+
qed

lemma slice_to_take: "\<exists>m. slice_to xs n = take m xs"
  by (auto simp: slice_to_def)

text \<open>
  Claim C10. When the TrendList holds an entry of sex \<open>M\<close> and an entry of sex \<open>F\<close> with
  the same name, the same current rank and the same improvement, the entry of sex \<open>M\<close> comes
  first.
\<close>
theorem male_before_female:
  assumes "calculate_trending ranks n = Inr trends"
    and "i < length trends" and "j < length trends"
    and "trends ! i = (name, lit ''M'', cur, prev_m, imp)"
    and "trends ! j = (name, lit ''F'', cur, prev_f, imp)"
  shows "i < j"
proof (rule ccontr)
  assume "\<not> i < j"
  have "trends ! i \<noteq> trends ! j" using assms(4,5) by (simp add: lit_def)
  with \<open>\<not> i < j\<close> have ji: "j < i" by (cases "i = j") auto
  from assms(1,2) obtain cands where c: "trending_list ranks = Inr cands"
    and trends: "trends = slice_to (sort_key trend_key cands) n"
    by (auto simp: calculate_trending_def split: if_splits sum.splits)
  let ?S = "sort_key trend_key cands"
  let ?k = "(- imp, cur, name)"
  let ?R = "\<lambda>a b :: trend_entry. \<not> (fst (snd a) = lit ''F'' \<and> fst (snd b) = lit ''M'')"
  obtain m where m: "trends = take m ?S" using trends slice_to_take by blast
  from m assms(2,3) have iS: "i < length ?S" and jS: "j < length ?S" by simp_all
  from m assms(2,3) have nth: "?S ! i = trends ! i" "?S ! j = trends ! j" by simp_all
  have "sorted_wrt ?R (filter (\<lambda>e. trend_key e = ?k) cands)"
    using trending_list_sexes [OF c] by (rule sorted_wrt_filter)
  then have "sorted_wrt ?R (filter (\<lambda>e. trend_key e = ?k) ?S)"
    by (simp only: sort_key_stable)
  then have "sorted_wrt (\<lambda>a b. trend_key a = ?k \<longrightarrow> trend_key b = ?k \<longrightarrow> ?R a b) ?S"
    by (simp only: sorted_wrt_filter_iff)
  with ji iS have "trend_key (?S ! j) = ?k \<longrightarrow> trend_key (?S ! i) = ?k \<longrightarrow> ?R (?S ! j) (?S ! i)"
    by (simp add: sorted_wrt_iff_nth_less)
  then show False using assms(4,5) by (simp add: nth trend_key_def)
qed


theorem male_before_female_witness:
  "calculate_trending tie_ranks 10 =
     Inr [(lit ''Kim'', lit ''M'', 1, 1, 0), (lit ''Kim'', lit ''F'', 1, 1, 0)] \<and> (0::nat) < 1"
proof -
  have ys: "all_years tie_ranks = {2021, 2022}"
    by (auto simp: all_years_def tie_ranks_def)
  have ly: "last_year tie_ranks = 2022" by (simp add: last_year_def ys)
  have "{y \<in> {2021, 2022::int}. y < 2022} = {2021}" by auto
  then have py: "prev_year tie_ranks = 2021" by (simp add: prev_year_def ys ly)
  have c: "calculate_trending tie_ranks 10 =
     Inr [(lit ''Kim'', lit ''M'', 1, 1, 0), (lit ''Kim'', lit ''F'', 1, 1, 0)]"
    by (simp add: calculate_trending_def ys trending_list_def ly py)
       (simp add: tie_ranks_def lit_def slice_to_def trend_key_def)
  from male_before_female [OF c, of 0 1 "lit ''Kim''" 1 1 0 1]
  show ?thesis using c by simp
qed

lemma sex_candidates_iff:
  "(name, sex', cur, prv, imp) \<in> set (sex_candidates l p sex names) \<longleftrightarrow>
     sex' = sex \<and> (\<exists>yr. (name, yr) \<in> set names \<and> map_of yr l = Some cur \<and>
                      map_of yr p = Some prv \<and> imp = prv - cur)"
  by (induction names) (auto split: option.splits)

lemma slice_to_subset: "set (slice_to xs n) \<subseteq> set xs"
  by (auto simp: slice_to_def dest: in_set_takeD)

text \<open>
  Claim C2. An entry for a name under a sex (one of the two sexes the selector enumerates) is
  among the candidates if and only if the rank mapping of that name and sex has a rank for
  the last year and a rank for the previous year; its ranks are those two and its improvement
  is the previous rank minus the current one. Every entry of the TrendList is a candidate, so
  a name that lacks either year never appears, and with a count that reaches the number of
  candidates every candidate appears.
\<close>
theorem both_years_required:
  assumes "2 \<le> card (all_years ranks)" and "both_sexes ranks" and "distinct_names ranks"
  shows "\<exists>cands. trending_list ranks = Inr cands \<and>
           (\<forall>name sex cur prv imp.
              (name, sex, cur, prv, imp) \<in> set cands \<longleftrightarrow>
                (sex = lit ''M'' \<or> sex = lit ''F'') \<and>
                entry ranks sex name (last_year ranks) = Some cur \<and>
                entry ranks sex name (prev_year ranks) = Some prv \<and>
                imp = prv - cur) \<and>
           (\<forall>n. \<exists>trends. calculate_trending ranks n = Inr trends \<and> set trends \<subseteq> set cands \<and>
                 (int (length cands) \<le> n \<longrightarrow> set trends = set cands))"
proof -
  from assms(2) obtain m f where m: "map_of ranks (lit ''M'') = Some m"
    and f: "map_of ranks (lit ''F'') = Some f"
    by (auto simp: both_sexes_def)
  let ?l = "last_year ranks" and ?p = "prev_year ranks"
  let ?cands = "sex_candidates ?l ?p (lit ''M'') m @ sex_candidates ?l ?p (lit ''F'') f"
  have c: "trending_list ranks = Inr ?cands"
    by (simp add: trending_list_def m f)
  have dm: "distinct (map fst m)" and df: "distinct (map fst f)"
    using assms(3) map_of_SomeD [OF m] map_of_SomeD [OF f]
    by (auto simp: distinct_names_def distinct_keys_def list_all_iff)
  have ne: "lit ''M'' \<noteq> lit ''F''" by (simp add: lit_def)
  have mem: "(name, sex, cur, prv, imp) \<in> set ?cands \<longleftrightarrow>
                (sex = lit ''M'' \<or> sex = lit ''F'') \<and>
                entry ranks sex name ?l = Some cur \<and>
                entry ranks sex name ?p = Some prv \<and>
                imp = prv - cur" for name sex cur prv imp
    using ne m f dm df
    by (auto simp: sex_candidates_iff entry_def split: option.splits)
  have tr: "\<exists>trends. calculate_trending ranks n = Inr trends \<and> set trends \<subseteq> set ?cands \<and>
                 (int (length ?cands) \<le> n \<longrightarrow> set trends = set ?cands)" for n
  proof -
    from assms(1) have "calculate_trending ranks n = Inr (slice_to (sort_key trend_key ?cands) n)"
      by (simp add: calculate_trending_def c)
    moreover have "set (slice_to (sort_key trend_key ?cands) n) \<subseteq> set ?cands"
      using slice_to_subset [of "sort_key trend_key ?cands" n] by simp
    moreover have "int (length ?cands) \<le> n \<Longrightarrow> slice_to (sort_key trend_key ?cands) n = sort_key trend_key ?cands"
      by (simp add: slice_to_def)
    ultimately show ?thesis by auto
  qed
  show ?thesis using c mem tr by blast
qed

lemma all_years_partial: "all_years partial_ranks = {2021, 2022}"
  by (auto simp add: all_years_def partial_ranks_def)

lemma last_year_partial: "last_year partial_ranks = 2022"
  by (simp add: last_year_def all_years_partial)

lemma prev_year_partial: "prev_year partial_ranks = 2021"
proof -
  have "{y \<in> {2021, 2022::int}. y < 2022} = {2021}" by auto
  then show ?thesis by (simp add: prev_year_def all_years_partial last_year_partial)
qed

lemma trending_list_partial:
  "trending_list partial_ranks =
     Inr [(lit ''Alex'', lit ''M'', 2, 1, - 1), (lit ''Sam'', lit ''M'', 1, 2, 1)]"
  by (simp add: trending_list_def last_year_partial prev_year_partial)
     (simp add: partial_ranks_def lit_def)

theorem both_years_required_witness:
  "2 \<le> card (all_years partial_ranks) \<and> both_sexes partial_ranks \<and> distinct_names partial_ranks \<and>
   (\<exists>trends. calculate_trending partial_ranks 10 = Inr trends \<and>
      (lit ''Sam'', lit ''M'', 1, 2, 1) \<in> set trends \<and>
      (\<forall>cur prv imp. (lit ''Zed'', lit ''M'', cur, prv, imp) \<notin> set trends))"
proof -
  have h1: "2 \<le> card (all_years partial_ranks)" by (simp add: all_years_partial)
  have h2: "both_sexes partial_ranks" by (simp add: both_sexes_def partial_ranks_def lit_def)
  have h3: "distinct_names partial_ranks"
    by (simp add: distinct_names_def distinct_keys_def partial_ranks_def lit_def)
  from both_years_required [OF h1 h2 h3]
  obtain cands where c: "trending_list partial_ranks = Inr cands"
    and mem: "\<And>name sex cur prv imp. (name, sex, cur, prv, imp) \<in> set cands \<longleftrightarrow>
                (sex = lit ''M'' \<or> sex = lit ''F'') \<and>
                entry partial_ranks sex name (last_year partial_ranks) = Some cur \<and>
                entry partial_ranks sex name (prev_year partial_ranks) = Some prv \<and>
                imp = prv - cur"
    and tr: "\<And>n. \<exists>trends. calculate_trending partial_ranks n = Inr trends \<and>
                set trends \<subseteq> set cands \<and> (int (length cands) \<le> n \<longrightarrow> set trends = set cands)"
    by blast
  from c have "length cands = 2" by (auto simp add: trending_list_partial)
  with tr [of 10] obtain trends where t: "calculate_trending partial_ranks 10 = Inr trends"
    and eq: "set trends = set cands" by auto
  have "entry partial_ranks (lit ''M'') (lit ''Zed'') 2021 = None"
    by (simp add: entry_def partial_ranks_def lit_def)
  then have zed: "(lit ''Zed'', lit ''M'', cur, prv, imp) \<notin> set cands" for cur prv imp
    by (simp add: mem prev_year_partial)
  have "entry partial_ranks (lit ''M'') (lit ''Sam'') 2022 = Some 1"
    and "entry partial_ranks (lit ''M'') (lit ''Sam'') 2021 = Some 2"
    by (simp_all add: entry_def partial_ranks_def lit_def)
  then have sam: "(lit ''Sam'', lit ''M'', 1, 2, 1) \<in> set cands"
    by (simp add: mem prev_year_partial last_year_partial)
  from t eq zed sam h1 h2 h3 show ?thesis by simp
qed


end
